theory Spec2Isabelle
  imports Complex_Main "HOL-Library.Word"
begin

section \<open>Ownership kernel: \<open>Referenced\<close> and \<open>ref_ptr\<close>\<close>

text \<open>
  The class \<open>Referenced\<close> (header guard \<open>CRPROPA_REFERENCED_H\<close>) embeds a counter
  \<open>mutable size_t _referenceCount\<close> in every shared object.  The model fixes the LP64 data model: \<open>size_t\<close> is a 64-bit word and
  \<open>int\<close> a 32-bit word.  The conversion \<open>size_t \<rightarrow> int\<close> that initialises
  \<open>int newRef\<close> keeps the low 32 bits (\<open>ucast\<close>); the conversion \<open>int \<rightarrow> size_t\<close> of
  \<open>return newRef\<close> sign-extends (\<open>scast\<close>).
\<close>

type_synonym size_t = "64 word"
type_synonym c_int = "32 word"

text \<open>
  The bodies of \<open>addReference\<close> and \<open>removeReference\<close> are chosen by the preprocessor:
  \<open>#if defined(OPENMP_3_1)\<close>, \<open>#elif defined(__GNUC__)\<close>, \<open>#else\<close>.  The macros are set
  by the build, so the branch taken is a parameter of the model.
\<close>

datatype build = OPENMP_3_1 | GNUC | OTHER

text \<open>
  \<open>destroyed\<close> is a ghost field: the number of times \<open>delete this\<close> has run on the object.
\<close>

record Referenced =
  referenceCount :: size_t
  destroyed :: nat

text \<open>\<open>Referenced() : _referenceCount(0)\<close>\<close>

definition Referenced_new :: Referenced where
  "Referenced_new = \<lparr>referenceCount = 0, destroyed = 0\<rparr>"

text \<open>
  \<open>addReference\<close>: under \<open>OPENMP_3_1\<close> and in the \<open>#else\<close> branch the captured value is
  \<open>_referenceCount++\<close> (the value before the increment); under \<open>__GNUC__\<close> it is
  \<open>__sync_add_and_fetch(&_referenceCount, 1)\<close> (the value after it).
\<close>

definition addReference :: "build \<Rightarrow> Referenced \<Rightarrow> size_t \<times> Referenced" where
  "addReference b r =
     (let newRef :: c_int =
            (case b of
               OPENMP_3_1 \<Rightarrow> ucast (referenceCount r)
             | GNUC \<Rightarrow> ucast (referenceCount r + 1)
             | OTHER \<Rightarrow> ucast (referenceCount r))
      in (scast newRef, r\<lparr>referenceCount := referenceCount r + 1\<rparr>))"

text \<open>
  \<open>removeReference\<close>: the same three branches with \<open>_referenceCount--\<close> and
  \<open>__sync_sub_and_fetch\<close>, followed by \<open>if (newRef == 0) delete this;\<close>.
\<close>

definition removeReference :: "build \<Rightarrow> Referenced \<Rightarrow> size_t \<times> Referenced" where
  "removeReference b r =
     (let newRef :: c_int =
            (case b of
               OPENMP_3_1 \<Rightarrow> ucast (referenceCount r)
             | GNUC \<Rightarrow> ucast (referenceCount r - 1)
             | OTHER \<Rightarrow> ucast (referenceCount r));
          r' = r\<lparr>referenceCount := referenceCount r - 1\<rparr>
      in (scast newRef,
          if newRef = 0 then r'\<lparr>destroyed := destroyed r' + 1\<rparr> else r'))"

text \<open>\<open>int removeReferenceNoDelete() const { return --_referenceCount; }\<close>\<close>

definition removeReferenceNoDelete :: "Referenced \<Rightarrow> c_int \<times> Referenced" where
  "removeReferenceNoDelete r =
     (ucast (referenceCount r - 1), r\<lparr>referenceCount := referenceCount r - 1\<rparr>)"

definition getReferenceCount :: "Referenced \<Rightarrow> size_t" where
  "getReferenceCount r = referenceCount r"

subsection \<open>Sequences of calls on one object\<close>

datatype refcall = AddReference | RemoveReference

fun call :: "build \<Rightarrow> refcall \<Rightarrow> Referenced \<Rightarrow> Referenced" where
  "call b AddReference r = snd (addReference b r)"
| "call b RemoveReference r = snd (removeReference b r)"

fun calls :: "build \<Rightarrow> refcall list \<Rightarrow> Referenced \<Rightarrow> Referenced" where
  "calls b [] r = r"
| "calls b (c # cs) r = calls b cs (call b c r)"

text \<open>
  \<open>in_lifetime n cs\<close>: the calls \<open>cs\<close>, made on an object that \<open>n\<close> handles refer to,
  stay within the object's lifetime: no reference is removed from a count of zero, and
  the call that removes the last reference is the last call made.
\<close>

fun in_lifetime :: "nat \<Rightarrow> refcall list \<Rightarrow> bool" where
  "in_lifetime n [] = True"
| "in_lifetime n (AddReference # cs) = in_lifetime (Suc n) cs"
| "in_lifetime n (RemoveReference # cs) =
     (0 < n \<and> (if n = 1 then cs = [] else in_lifetime (n - 1) cs))"

subsection \<open>Objects in a store, and handles to them\<close>

text \<open>
  A pointer is an address, \<open>0\<close> the null pointer.  The store holds the \<open>Referenced\<close>
  part of every object and, as a ghost field, the calls made on the counters in the
  order in which they were made.
\<close>

datatype event = AddRef nat | RemoveRef nat

record store =
  refs :: "nat \<Rightarrow> Referenced"
  trace :: "event list"

definition addReference_at :: "build \<Rightarrow> nat \<Rightarrow> 'a store_scheme \<Rightarrow> 'a store_scheme" where
  "addReference_at b p s =
     s\<lparr>refs := (refs s)(p := snd (addReference b (refs s p))),
       trace := trace s @ [AddRef p]\<rparr>"

definition removeReference_at :: "build \<Rightarrow> nat \<Rightarrow> 'a store_scheme \<Rightarrow> 'a store_scheme" where
  "removeReference_at b p s =
     s\<lparr>refs := (refs s)(p := snd (removeReference b (refs s p))),
       trace := trace s @ [RemoveRef p]\<rparr>"

record ref_ptr =
  ptr :: nat

text \<open>\<open>ref_ptr(const ref_ptr& rp) : _ptr(rp._ptr) { if (_ptr) _ptr->addReference(); }\<close>\<close>

definition ref_ptr_copy :: "build \<Rightarrow> ref_ptr \<Rightarrow> 'a store_scheme \<Rightarrow> ref_ptr \<times> 'a store_scheme" where
  "ref_ptr_copy b rp s =
     (\<lparr>ptr = ptr rp\<rparr>, if ptr rp \<noteq> 0 then addReference_at b (ptr rp) s else s)"

text \<open>\<open>ref_ptr(T* ptr) : _ptr(ptr) { if (_ptr) _ptr->addReference(); }\<close>\<close>

definition ref_ptr_from :: "build \<Rightarrow> nat \<Rightarrow> 'a store_scheme \<Rightarrow> ref_ptr \<times> 'a store_scheme" where
  "ref_ptr_from b p s =
     (\<lparr>ptr = p\<rparr>, if p \<noteq> 0 then addReference_at b p s else s)"

text \<open>\<open>~ref_ptr() { if (_ptr) _ptr->removeReference(); _ptr = 0; }\<close>\<close>

definition ref_ptr_destroy :: "build \<Rightarrow> ref_ptr \<Rightarrow> 'a store_scheme \<Rightarrow> 'a store_scheme" where
  "ref_ptr_destroy b rp s =
     (if ptr rp \<noteq> 0 then removeReference_at b (ptr rp) s else s)"

text \<open>
  \<open>operator =(T* ptr)\<close>: returns at once when the handle already holds \<open>ptr\<close>; otherwise
  stores it, adds a reference to the new object and then removes one from the old.
\<close>

definition assign_ptr :: "build \<Rightarrow> ref_ptr \<Rightarrow> nat \<Rightarrow> 'a store_scheme \<Rightarrow> ref_ptr \<times> 'a store_scheme" where
  "assign_ptr b rp p s =
     (if ptr rp = p then (rp, s)
      else
        let tmp_ptr = ptr rp;
            rp' = rp\<lparr>ptr := p\<rparr>;
            s1 = (if ptr rp' \<noteq> 0 then addReference_at b (ptr rp') s else s);
            s2 = (if tmp_ptr \<noteq> 0 then removeReference_at b tmp_ptr s1 else s1)
        in (rp', s2))"

text \<open>\<open>assign(const ref_ptr<Other>& rp)\<close>, called by \<open>operator =(const ref_ptr& rp)\<close>.\<close>

definition assign :: "build \<Rightarrow> ref_ptr \<Rightarrow> ref_ptr \<Rightarrow> 'a store_scheme \<Rightarrow> ref_ptr \<times> 'a store_scheme" where
  "assign b this rp s =
     (if ptr this = ptr rp then (this, s)
      else
        let tmp_ptr = ptr this;
            this' = this\<lparr>ptr := ptr rp\<rparr>;
            s1 = (if ptr this' \<noteq> 0 then addReference_at b (ptr this') s else s);
            s2 = (if tmp_ptr \<noteq> 0 then removeReference_at b tmp_ptr s1 else s1)
        in (this', s2))"

text \<open>Making \<open>k\<close> copies of one handle, and destroying a list of handles.\<close>

fun make_copies :: "build \<Rightarrow> nat \<Rightarrow> ref_ptr \<Rightarrow> 'a store_scheme \<Rightarrow> ref_ptr list \<times> 'a store_scheme" where
  "make_copies b 0 rp s = ([], s)"
| "make_copies b (Suc k) rp s =
     (let (c, s1) = ref_ptr_copy b rp s;
          (cs, s2) = make_copies b k rp s1
      in (c # cs, s2))"

fun destroy_all :: "build \<Rightarrow> ref_ptr list \<Rightarrow> 'a store_scheme \<Rightarrow> 'a store_scheme" where
  "destroy_all b [] s = s"
| "destroy_all b (c # cs) s = destroy_all b cs (ref_ptr_destroy b c s)"

section \<open>Candidates\<close>

text \<open>
  Modelled from the spec: the classes \<open>ParticleState\<close> and \<open>Candidate\<close> (their headers
  and \<open>Candidate.cpp\<close> are not among the sources).  The modules read a candidate
  through \<open>candidate->current\<close>, \<open>candidate->created\<close>, \<open>candidate->source\<close>,
  \<open>getId()\<close>, \<open>getEnergy()\<close> and \<open>getPosition()\<close>; the other fields follow the data
  model of the specification: "current state (particle id, energy, position,
  direction), created-state snapshot, source-state snapshot, trajectory bookkeeping
  (accumulated distance, step-size hints), an \<open>active\<close> flag, an extensible key/value
  property bag, and an owned, insertion-ordered sequence of secondary candidates".
  Values of type \<open>double\<close> are only stored, copied and set to \<open>0\<close> by the functions
  modelled here; they are carried as \<open>real\<close>.
\<close>

record ParticleState =
  getId :: c_int
  getEnergy :: real
  getPosition :: "real \<times> real \<times> real"
  getDirection :: "real \<times> real \<times> real"

text \<open>
  Modelled from the spec: the class \<open>Candidate\<close> (\<open>Candidate.h\<close> is not among the
  sources), with the fields of the data model quoted above.  A candidate owns the
  insertion-ordered sequence of its secondaries ("each node exclusively owning its
  children"), so the secondaries are part of the value.
\<close>

datatype Candidate = Candidate
  (current: ParticleState)
  (created: ParticleState)
  (source: ParticleState)
  (trajectoryLength: real)
  (currentStep: real)
  (nextStep: real)
  (active: bool)
  (properties: "(string \<times> string) list")
  (secondaries: "Candidate list")

text \<open>
  Modelled from the spec: \<open>Candidate::setActive\<close> (\<open>Candidate.cpp\<close> is not among the
  sources); a module "may mark the candidate inactive".
\<close>

fun setActive :: "bool \<Rightarrow> Candidate \<Rightarrow> Candidate" where
  "setActive b (Candidate cu cr so len st nx a pr se) = Candidate cu cr so len st nx b pr se"

text \<open>
  Modelled from the spec: \<open>Candidate::setTrajectoryLength\<close> (\<open>Candidate.cpp\<close> is not
  among the sources); the accumulated distance of the trajectory bookkeeping.
\<close>

fun setTrajectoryLength :: "real \<Rightarrow> Candidate \<Rightarrow> Candidate" where
  "setTrajectoryLength l (Candidate cu cr so len st nx a pr se) = Candidate cu cr so l st nx a pr se"

text \<open>
  Modelled from the spec: replacing the owned sequence of secondaries of a candidate
  (\<open>Candidate.cpp\<close> is not among the sources); the driver writes the processed
  secondaries back with it.
\<close>

fun setSecondaries :: "Candidate list \<Rightarrow> Candidate \<Rightarrow> Candidate" where
  "setSecondaries ss (Candidate cu cr so len st nx a pr se) = Candidate cu cr so len st nx a pr ss"

text \<open>
  Modelled from the spec: \<open>Candidate::clone(recursive)\<close> (\<open>Candidate.cpp\<close> is not among
  the sources): "an independent copy, optionally including the entire secondary
  subtree"; "deep copy of the secondary subtree only if the recursive flag is set".
\<close>

fun Candidate_clone :: "bool \<Rightarrow> Candidate \<Rightarrow> Candidate" where
  "Candidate_clone deep (Candidate cu cr so len st nx a pr se) =
     Candidate cu cr so len st nx a pr (if deep then map (Candidate_clone deep) se else [])"

text \<open>
  Modelled from the spec: \<open>Candidate::restart\<close> (\<open>Candidate.cpp\<close> is not among the
  sources): "resets trajectory length to 0 and \<open>active\<close> to true while leaving
  source/created snapshots untouched".  Nothing else is said to change, and nothing
  else does here.
\<close>

definition restart :: "Candidate \<Rightarrow> Candidate" where
  "restart c = setTrajectoryLength 0 (setActive True c)"

subsection \<open>Candidates on the heap\<close>

text \<open>
  Candidates that handles point to live in a heap: the store of the counters extended
  by the cells of the candidates.  The address \<open>p > 0\<close> names the cell \<open>cands ! (p - 1)\<close>;
  a cell is \<open>None\<close> once the object has been deleted.
\<close>

record heap = store +
  cands :: "Candidate option list"

definition deref :: "heap \<Rightarrow> nat \<Rightarrow> Candidate option" where
  "deref h p = (if 0 < p \<and> p \<le> length (cands h) then cands h ! (p - 1) else None)"

text \<open>\<open>new Candidate\<close>: a fresh cell, its counter initialised by \<open>Referenced()\<close>.\<close>

definition new_Candidate :: "Candidate \<Rightarrow> heap \<Rightarrow> nat \<times> heap" where
  "new_Candidate c h =
     (let p = Suc (length (cands h))
      in (p, h\<lparr>refs := (refs h)(p := Referenced_new), cands := cands h @ [Some c]\<rparr>))"

definition store_Candidate :: "nat \<Rightarrow> Candidate \<Rightarrow> heap \<Rightarrow> heap" where
  "store_Candidate p c h = h\<lparr>cands := (cands h)[p - 1 := Some c]\<rparr>"

text \<open>
  The destructor of a \<open>ref_ptr<Candidate>\<close>: when \<open>removeReference\<close> runs
  \<open>delete this\<close>, the cell is gone.
\<close>

definition ref_ptr_destroy_Candidate :: "build \<Rightarrow> ref_ptr \<Rightarrow> heap \<Rightarrow> heap" where
  "ref_ptr_destroy_Candidate b rp h =
     (if ptr rp \<noteq> 0 then
        let h' = removeReference_at b (ptr rp) h
        in if destroyed (refs h' (ptr rp)) \<noteq> destroyed (refs h (ptr rp))
           then h'\<lparr>cands := (cands h')[ptr rp - 1 := None]\<rparr>
           else h'
      else h)"

section \<open>Modules\<close>

text \<open>
  A module is the capability \<open>process(candidate)\<close>: it may change the candidate it is
  given and a state \<open>'w\<close> of its own outside the candidate (a stream, a histogram).
\<close>

type_synonym 'w module = "Candidate \<Rightarrow> 'w \<Rightarrow> Candidate \<times> 'w"

subsection \<open>\<open>ParticleCollector\<close>\<close>

record ParticleCollector =
  nBuffer :: size_t
  clone :: bool
  recursive :: bool
  container :: "ref_ptr list"

text \<open>
  The four constructors.  A member that the initialiser list does not name is left
  as it is in the storage the object is built in; \<open>uninit\<close> is that storage.  The
  constructor arguments \<open>nBuffer\<close>, \<open>clone\<close> and \<open>recursive\<close> (primed here) hide the
  members of the same name; \<open>container.reserve(nBuffer)\<close> only allocates.
\<close>

definition ParticleCollector_0 :: ParticleCollector where
  "ParticleCollector_0 = \<lparr>nBuffer = 10000000, clone = False, recursive = False, container = []\<rparr>"

definition ParticleCollector_1 :: "ParticleCollector \<Rightarrow> size_t \<Rightarrow> ParticleCollector" where
  "ParticleCollector_1 uninit nBuffer' = uninit\<lparr>clone := False, recursive := False, container := []\<rparr>"

definition ParticleCollector_2 :: "ParticleCollector \<Rightarrow> size_t \<Rightarrow> bool \<Rightarrow> ParticleCollector" where
  "ParticleCollector_2 uninit nBuffer' clone' = uninit\<lparr>recursive := False, container := []\<rparr>"

definition ParticleCollector_3 ::
  "ParticleCollector \<Rightarrow> size_t \<Rightarrow> bool \<Rightarrow> bool \<Rightarrow> ParticleCollector" where
  "ParticleCollector_3 uninit nBuffer' clone' recursive' = uninit\<lparr>container := []\<rparr>"

text \<open>
  \<open>container.push_back(x)\<close> copy-constructs the new element from \<open>x\<close>.
\<close>

definition push_back :: "build \<Rightarrow> ref_ptr \<Rightarrow> ref_ptr list \<Rightarrow> heap \<Rightarrow> ref_ptr list \<times> heap" where
  "push_back b x v h = (case ref_ptr_copy b x h of (x', h') \<Rightarrow> (v @ [x'], h'))"

text \<open>
  \<open>ParticleCollector::process(Candidate *c)\<close>.  With \<open>clone\<close> set, \<open>c->clone(recursive)\<close>
  returns a handle to a new candidate, which is pushed and then destroyed as a
  temporary; otherwise the temporary handle is built from \<open>c\<close> itself.  Cloning through
  a pointer to no candidate is undefined behaviour: \<open>None\<close>.
\<close>

definition ParticleCollector_process ::
  "build \<Rightarrow> ParticleCollector \<Rightarrow> nat \<Rightarrow> heap \<Rightarrow> (ParticleCollector \<times> heap) option" where
  "ParticleCollector_process b pc c h =
     (if clone pc then
        (case deref h c of
           None \<Rightarrow> None
         | Some cand \<Rightarrow>
             let (p, h1) = new_Candidate (Candidate_clone (recursive pc) cand) h;
                 (tmp, h2) = ref_ptr_from b p h1;
                 (v, h3) = push_back b tmp (container pc) h2;
                 h4 = ref_ptr_destroy_Candidate b tmp h3
             in Some (pc\<lparr>container := v\<rparr>, h4))
      else
        let (tmp, h1) = ref_ptr_from b c h;
            (v, h2) = push_back b tmp (container pc) h1;
            h3 = ref_ptr_destroy_Candidate b tmp h2
        in Some (pc\<lparr>container := v\<rparr>, h3))"

definition ParticleCollector_size :: "ParticleCollector \<Rightarrow> nat" where
  "ParticleCollector_size pc = length (container pc)"

subsection \<open>\<open>ParticleFilter\<close> and \<open>EmissionMapFiller\<close>\<close>

text \<open>
  \<open>ParticleFilter::process\<close>; \<open>accept\<close> and \<open>reject\<close> are the capabilities that the
  concrete variant of the filter supplies, \<open>ids\<close> is the \<open>std::set<int>\<close>.
\<close>

definition ParticleFilter_process ::
  "'w module \<Rightarrow> 'w module \<Rightarrow> c_int set \<Rightarrow> Candidate \<Rightarrow> 'w \<Rightarrow> Candidate \<times> 'w" where
  "ParticleFilter_process accept reject ids candidate w =
     (if getId (current candidate) \<notin> ids then reject candidate w else accept candidate w)"

text \<open>\<open>ParticleFilter::addId\<close> is \<open>ids.insert(id)\<close>, \<open>removeId\<close> is \<open>ids.erase(id)\<close>.\<close>

definition addId :: "c_int \<Rightarrow> c_int set \<Rightarrow> c_int set" where
  "addId i ids = insert i ids"

definition removeId :: "c_int \<Rightarrow> c_int set \<Rightarrow> c_int set" where
  "removeId i ids = ids - {i}"

text \<open>Capabilities that only record that they were invoked.\<close>

datatype capability = Accept | Reject

definition record_accept :: "capability list module" where
  "record_accept candidate w = (candidate, w @ [Accept])"

definition record_reject :: "capability list module" where
  "record_reject candidate w = (candidate, w @ [Reject])"

definition invoked :: "c_int set \<Rightarrow> Candidate \<Rightarrow> capability list" where
  "invoked ids candidate = snd (ParticleFilter_process record_accept record_reject ids candidate [])"

text \<open>
  \<open>EmissionMapFiller::process\<close>; the pointer \<open>emissionMap\<close> may be null (\<open>None\<close>), and
  \<open>fillMap\<close> is the operation of the externally owned map.
\<close>

definition EmissionMapFiller_process ::
  "(ParticleState \<Rightarrow> 'm \<Rightarrow> 'm) \<Rightarrow> 'm option \<Rightarrow> Candidate \<Rightarrow> 'm option" where
  "EmissionMapFiller_process fillMap emissionMap candidate =
     (case emissionMap of
        None \<Rightarrow> None
      | Some m \<Rightarrow> Some (fillMap (source candidate) m))"

subsection \<open>\<open>PhotonOutput1D\<close>\<close>

text \<open>
  \<open>abs\<close> on \<open>int\<close>.  At \<open>INT_MIN\<close> the C function is undefined; the negation wraps here,
  as the machine instruction does.
\<close>

definition c_abs :: "c_int \<Rightarrow> c_int" where
  "c_abs x = (if x <s 0 then - x else x)"

text \<open>
  \<open>PhotonOutput1D::process\<close>.  The record is formatted by \<open>sprintf\<close> from the current,
  created and source states; \<open>fmt\<close> is that formatting.  The stream is the list of the
  buffers passed to \<open>out->write\<close>.
\<close>

definition PhotonOutput1D_process :: "(Candidate \<Rightarrow> string) \<Rightarrow> string list module" where
  "PhotonOutput1D_process fmt candidate out =
     (let pid = getId (current candidate)
      in if pid \<noteq> 22 \<and> c_abs pid \<noteq> 11 then (candidate, out)
         else (setActive False candidate, out @ [fmt candidate]))"

subsection \<open>The pipeline driver\<close>

text \<open>
  Modelled from the spec: \<open>ModuleList\<close> with \<open>add\<close>, \<open>remove\<close>, \<open>size\<close> and \<open>run\<close>
  (\<open>ModuleList.cpp\<close> is not among the sources): "applies an ordered list of modules to
  a candidate and recursively to its secondaries"; "run the full ordered module chain
  repeatedly until the candidate becomes inactive or a configured step budget is
  exhausted; once the primary candidate's own processing is finished, recursively
  apply the identical traversal to each of its secondaries in creation order".
  The tree of secondaries grows while it is traversed, so the traversal takes fuel
  for its depth and is \<open>None\<close> when the fuel does not suffice.
\<close>

record 'w ModuleList =
  modules :: "'w module list"
  stepBudget :: nat

text \<open>
  Modelled from the spec: \<open>ModuleList::add\<close> (\<open>ModuleList.cpp\<close> is not among the
  sources): "appends \<open>outputModule\<close> to a driver's module chain".
\<close>

definition ModuleList_add :: "'w module \<Rightarrow> 'w ModuleList \<Rightarrow> 'w ModuleList" where
  "ModuleList_add m ml = ml\<lparr>modules := modules ml @ [m]\<rparr>"

text \<open>
  Modelled from the spec: \<open>ModuleList::size\<close> (\<open>ModuleList.cpp\<close> is not among the
  sources): the number of modules in the chain.
\<close>

definition ModuleList_size :: "'w ModuleList \<Rightarrow> nat" where
  "ModuleList_size ml = length (modules ml)"

text \<open>
  Modelled from the spec: \<open>ModuleList::remove(i)\<close> (\<open>ModuleList.cpp\<close> is not among the
  sources): "removes the temporary module", the one at index \<open>i\<close>.
\<close>

definition ModuleList_remove :: "nat \<Rightarrow> 'w ModuleList \<Rightarrow> 'w ModuleList" where
  "ModuleList_remove i ml = ml\<lparr>modules := take i (modules ml) @ drop (Suc i) (modules ml)\<rparr>"

text \<open>
  Modelled from the spec: one pass of the chain (\<open>ModuleList.cpp\<close> is not among the
  sources): the candidate is "processed by each module in declared order".
\<close>

fun process_chain :: "'w module list \<Rightarrow> 'w module" where
  "process_chain [] c w = (c, w)"
| "process_chain (m # ms) c w = (case m c w of (c', w') \<Rightarrow> process_chain ms c' w')"

text \<open>
  Modelled from the spec: the loop of \<open>ModuleList::run\<close> on one candidate
  (\<open>ModuleList.cpp\<close> is not among the sources): "run the full ordered module chain
  repeatedly until the candidate becomes inactive or a configured step budget is
  exhausted".
\<close>

fun run_primary :: "nat \<Rightarrow> 'w module list \<Rightarrow> 'w module" where
  "run_primary 0 ms c w = (c, w)"
| "run_primary (Suc n) ms c w =
     (if active c then (case process_chain ms c w of (c', w') \<Rightarrow> run_primary n ms c' w')
      else (c, w))"

text \<open>
  Modelled from the spec: \<open>ModuleList::run\<close> (\<open>ModuleList.cpp\<close> is not among the
  sources): the loop on the primary candidate, then "the identical traversal" on "each
  of its secondaries in creation order (depth-first, parent fully resolved before
  descending)".
\<close>

fun run :: "nat \<Rightarrow> 'w ModuleList \<Rightarrow> Candidate \<Rightarrow> 'w \<Rightarrow> (Candidate \<times> 'w) option"
  and run_secondaries ::
    "nat \<Rightarrow> 'w ModuleList \<Rightarrow> Candidate list \<Rightarrow> 'w \<Rightarrow> (Candidate list \<times> 'w) option" where
  "run 0 ml c w = None"
| "run (Suc fuel) ml c w =
     (case run_primary (stepBudget ml) (modules ml) c w of
        (c', w') \<Rightarrow>
          (case run_secondaries fuel ml (secondaries c') w' of
             None \<Rightarrow> None
           | Some (ss, w'') \<Rightarrow> Some (setSecondaries ss c', w'')))"
| "run_secondaries fuel ml [] w = Some ([], w)"
| "run_secondaries fuel ml (s # ss) w =
     (case run fuel ml s w of
        None \<Rightarrow> None
      | Some (s', w') \<Rightarrow>
          (case run_secondaries fuel ml ss w' of
             None \<Rightarrow> None
           | Some (ss', w'') \<Rightarrow> Some (s' # ss', w'')))"

text \<open>
  \<open>ParticleCollector::getTrajectory(ModuleList* mlist, std::size_t i, Module *output)\<close>.
  Reading \<open>container[i]\<close> out of range, or through a handle to no candidate, is
  undefined behaviour: \<open>None\<close>.  The handle \<open>c_tmp\<close> is destroyed when the function
  returns.
\<close>

definition getTrajectory ::
  "build \<Rightarrow> nat \<Rightarrow> ParticleCollector \<Rightarrow> 'w ModuleList \<Rightarrow> nat \<Rightarrow> 'w module \<Rightarrow> heap \<Rightarrow> 'w
     \<Rightarrow> ('w ModuleList \<times> heap \<times> 'w) option" where
  "getTrajectory b fuel pc mlist i output h w =
     (if i < length (container pc) then
        (case deref h (ptr (container pc ! i)) of
           None \<Rightarrow> None
         | Some stored \<Rightarrow>
             let (p, h1) = new_Candidate (Candidate_clone False stored) h;
                 (c_tmp, h2) = ref_ptr_from b p h1;
                 restarted = restart (Candidate_clone False stored);
                 h3 = store_Candidate p restarted h2;
                 mlist1 = ModuleList_add output mlist
             in (case run fuel mlist1 restarted w of
                   None \<Rightarrow> None
                 | Some (c', w') \<Rightarrow>
                     let h4 = store_Candidate p c' h3;
                         mlist2 = ModuleList_remove (ModuleList_size mlist1 - 1) mlist1;
                         h5 = ref_ptr_destroy_Candidate b c_tmp h4
                     in Some (mlist2, h5, w')))
      else None)"

subsection \<open>\<open>PerformanceModule\<close>\<close>

text \<open>
  \<open>PerformanceModule\<close> keeps a vector \<open>modules\<close> of \<open>_module_info\<close> (the fields \<open>time\<close>
  and \<open>module\<close>) and a counter \<open>calls\<close>.  The times are of type \<open>double\<close>: the
  type \<open>'d\<close>, with the addition \<open>dadd\<close>, the subtraction \<open>dsub\<close> and the value \<open>dzero\<close> of
  \<open>0\<close> as parameters, about which nothing is assumed.  The class is declared in
  \<open>Tools.h\<close>, which is not among the sources, so the type of \<open>calls\<close> is a parameter
  too: any type \<open>'n\<close> with \<open>1\<close> and \<open>+\<close>.  The vector is \<open>modules_pm\<close> and the counter
  \<open>calls_pm\<close> here.
\<close>

record ('d, 'w) module_info =
  time :: 'd
  module :: "'w module"









section \<open>Example values\<close>

text \<open>Concrete states, candidates, heaps and modules at which the theorems are instantiated.\<close>

definition photon :: ParticleState where
  "photon = \<lparr>getId = 22, getEnergy = 1, getPosition = (0, 0, 0), getDirection = (1, 0, 0)\<rparr>"

definition proton :: ParticleState where
  "proton = \<lparr>getId = 2212, getEnergy = 10, getPosition = (0, 0, 0), getDirection = (1, 0, 0)\<rparr>"

definition stopped_photon :: Candidate where
  "stopped_photon = Candidate photon photon proton 5 1 1 False [] []"

definition heap1 :: heap where
  "heap1 = \<lparr>refs = (\<lambda>p. \<lparr>referenceCount = 1, destroyed = 0\<rparr>), trace = [], cands = [Some stopped_photon]\<rparr>"

definition zeroed :: ParticleCollector where
  "zeroed = \<lparr>nBuffer = 0, clone = False, recursive = False, container = []\<rparr>"

definition running_proton :: Candidate where
  "running_proton = Candidate proton proton proton 0 1 1 True [] []"

definition stop_and_record :: "real list module" where
  "stop_and_record c w = (setActive False c, w @ [trajectoryLength c])"

definition chain0 :: "real list ModuleList" where
  "chain0 = \<lparr>modules = [], stepBudget = 2\<rparr>"

definition collector1 :: ParticleCollector where
  "collector1 = \<lparr>nBuffer = 10, clone = False, recursive = False, container = [\<lparr>ptr = 1\<rparr>]\<rparr>"

definition sole_owner :: store where
  "sole_owner = \<lparr>refs = (\<lambda>a. \<lparr>referenceCount = 1, destroyed = 0\<rparr>), trace = []\<rparr>"





section \<open>Properties of the ownership kernel\<close>

subsection \<open>Conversions between \<open>size_t\<close> and \<open>int\<close>\<close>

lemma ucast_of_nat_32: "x < 2^32 \<Longrightarrow> (ucast (of_nat x :: 64 word) :: 32 word) = of_nat x"
  by (simp add: unsigned_of_nat take_bit_nat_eq_self)

lemma of_nat_32_eq_0: "x < 2^32 \<Longrightarrow> ((of_nat x :: 32 word) = 0) = (x = 0)"
  by (auto simp add: word_of_nat_eq_0_iff dest: dvd_imp_le)

lemma scast_of_nat_31: "x < 2^31 \<Longrightarrow> (scast (of_nat x :: 32 word) :: 64 word) = of_nat x"
  by (simp add: signed_of_nat signed_take_bit_int_eq_self)

lemma unat_of_nat_64: "x < 2^32 \<Longrightarrow> unat (of_nat x :: 64 word) = x"
  by (simp add: unat_of_nat)

lemma ucast_minus_1: "(ucast (- 1 :: 64 word) :: 32 word) = - 1"
  by (rule bit_word_eqI) (simp add: bit_simps)

lemma of_nat_pred: "0 < n \<Longrightarrow> (of_nat n :: 64 word) - 1 = of_nat (n - 1)"
  by (cases n) simp_all

lemma of_nat_succ: "(of_nat n :: 64 word) + 1 = of_nat (Suc n)"
  by simp

subsection \<open>Single calls\<close>

text \<open>
  On the \<open>__GNUC__\<close> branch, and while the count fits an \<open>int\<close>, \<open>addReference\<close>
  returns the incremented count and \<open>removeReference\<close> returns the decremented count
  and deletes the object exactly when that count is zero.
\<close>

lemma addReference_GNUC:
  assumes "referenceCount r = of_nat n" "n + 1 < 2^31"
  shows "addReference GNUC r = (of_nat (Suc n), r\<lparr>referenceCount := of_nat (Suc n)\<rparr>)"
proof -
  have "(ucast (of_nat (Suc n) :: 64 word) :: 32 word) = of_nat (Suc n)"
    using assms(2) by (intro ucast_of_nat_32) simp
  moreover have "(scast (of_nat (Suc n) :: 32 word) :: 64 word) = of_nat (Suc n)"
    using assms(2) by (intro scast_of_nat_31) simp
  ultimately show ?thesis
    unfolding addReference_def assms(1) of_nat_succ by (simp del: of_nat_Suc)
qed

lemma removeReference_GNUC:
  assumes "referenceCount r = of_nat n" "0 < n" "n \<le> 2^31"
  shows "removeReference GNUC r =
           (of_nat (n - 1),
            r\<lparr>referenceCount := of_nat (n - 1),
              destroyed := (if n - 1 = 0 then destroyed r + 1 else destroyed r)\<rparr>)"
proof -
  have lt: "n - 1 < 2^31" using assms by simp
  have "(ucast (of_nat (n - 1) :: 64 word) :: 32 word) = of_nat (n - 1)"
    using lt by (intro ucast_of_nat_32) simp
  moreover have "(scast (of_nat (n - 1) :: 32 word) :: 64 word) = of_nat (n - 1)"
    using lt by (intro scast_of_nat_31)
  moreover have "((of_nat (n - 1) :: 32 word) = 0) = (n - 1 = 0)"
    using lt by (intro of_nat_32_eq_0) simp
  ultimately show ?thesis
    unfolding removeReference_def assms(1) of_nat_pred[OF assms(2)] by (simp add: Let_def)
qed

lemma snd_addReference:
  "snd (addReference b r) = r\<lparr>referenceCount := referenceCount r + 1\<rparr>"
  by (simp add: addReference_def)

lemma snd_removeReference_GNUC:
  assumes "referenceCount r = of_nat n" "0 < n" "n \<le> 2^32"
  shows "snd (removeReference GNUC r) =
           r\<lparr>referenceCount := of_nat (n - 1),
             destroyed := (if n = 1 then destroyed r + 1 else destroyed r)\<rparr>"
proof -
  have lt: "n - 1 < 2^32" using assms by simp
  have "(ucast (of_nat (n - 1) :: 64 word) :: 32 word) = of_nat (n - 1)"
    using lt by (rule ucast_of_nat_32)
  moreover have "((of_nat (n - 1) :: 32 word) = 0) = (n - 1 = 0)"
    using lt by (rule of_nat_32_eq_0)
  moreover have "(n - 1 = 0) = (n = 1)" using assms(2) by auto
  ultimately show ?thesis
    unfolding removeReference_def assms(1) of_nat_pred[OF assms(2)] by (simp add: Let_def)
qed

text \<open>
  On the other two branches the value returned is the count before the update, and
  \<open>removeReference\<close> does not delete an object whose count goes from 1 to 0.
\<close>

lemma addReference_capture:
  assumes "b \<noteq> GNUC" "referenceCount r = of_nat n" "n < 2^31"
  shows "addReference b r = (of_nat n, r\<lparr>referenceCount := of_nat (Suc n)\<rparr>)"
proof -
  have "(ucast (of_nat n :: 64 word) :: 32 word) = of_nat n"
    using assms(3) by (intro ucast_of_nat_32) simp
  moreover have "(scast (of_nat n :: 32 word) :: 64 word) = of_nat n"
    using assms(3) by (intro scast_of_nat_31)
  ultimately show ?thesis
    using assms(1) unfolding addReference_def assms(2) by (cases b) simp_all
qed

lemma removeReference_capture:
  assumes "b \<noteq> GNUC" "referenceCount r = of_nat n" "0 < n" "n < 2^31"
  shows "removeReference b r = (of_nat n, r\<lparr>referenceCount := of_nat (n - 1)\<rparr>)"
proof -
  have "(ucast (of_nat n :: 64 word) :: 32 word) = of_nat n"
    using assms(4) by (intro ucast_of_nat_32) simp
  moreover have "(scast (of_nat n :: 32 word) :: 64 word) = of_nat n"
    using assms(4) by (intro scast_of_nat_31)
  moreover have "(of_nat n :: 32 word) \<noteq> 0"
    using assms(3,4) of_nat_32_eq_0[of n] by simp
  ultimately show ?thesis
    using assms(1) unfolding removeReference_def assms(2) of_nat_pred[OF assms(3)]
    by (cases b) (simp_all add: Let_def)
qed

text \<open>
  Beyond \<open>2^32\<close> the conversion to \<open>int newRef\<close> loses the high bits of the count: the
  bounds in the statements below are needed.
\<close>

lemma removeReference_truncates:
  "removeReference GNUC \<lparr>referenceCount = 2^32 + 1, destroyed = 0\<rparr>
     = (0, \<lparr>referenceCount = 2^32, destroyed = 1\<rparr>)"
  by (simp add: removeReference_def)

text \<open>
  C2: for a count \<open>n\<close>, \<open>addReference()\<close> returns \<open>n + 1\<close>, and \<open>removeReference()\<close>
  returns \<open>n - 1\<close> and destroys the object exactly when the result is zero.  On the
  branches \<open>OPENMP_3_1\<close> and \<open>#else\<close> the code captures \<open>_referenceCount++\<close> and
  \<open>_referenceCount--\<close>, the count before the update: with one reference left,
  \<open>addReference\<close> returns 1 (not 2) and \<open>removeReference\<close> returns 1 (not 0), takes
  the count to 0 and does not delete the object; on a count of 0 it does delete it.
\<close>

theorem C2_capture_returns_old_count:
  "addReference OPENMP_3_1 \<lparr>referenceCount = 1, destroyed = 0\<rparr>
     = (1, \<lparr>referenceCount = 2, destroyed = 0\<rparr>) \<and>
   removeReference OPENMP_3_1 \<lparr>referenceCount = 1, destroyed = 0\<rparr>
     = (1, \<lparr>referenceCount = 0, destroyed = 0\<rparr>) \<and>
   removeReference OTHER \<lparr>referenceCount = 1, destroyed = 0\<rparr>
     = (1, \<lparr>referenceCount = 0, destroyed = 0\<rparr>) \<and>
   removeReference GNUC \<lparr>referenceCount = 1, destroyed = 0\<rparr>
     = (0, \<lparr>referenceCount = 0, destroyed = 1\<rparr>)"
  by (simp add: addReference_def removeReference_def)

subsection \<open>Sequences of calls\<close>

text \<open>On every branch the count itself is updated as expected, modulo \<open>2^64\<close>.\<close>

lemma referenceCount_removeReference:
  "referenceCount (snd (removeReference b r)) = referenceCount r - 1"
  by (cases b) (simp_all add: removeReference_def Let_def)

lemma referenceCount_call:
  "referenceCount (call b c r) =
     (case c of AddReference \<Rightarrow> referenceCount r + 1 | RemoveReference \<Rightarrow> referenceCount r - 1)"
  by (cases c) (simp_all add: snd_addReference referenceCount_removeReference)

lemma referenceCount_calls:
  "referenceCount (calls b cs r) =
     referenceCount r + of_nat (count_list cs AddReference) - of_nat (count_list cs RemoveReference)"
proof (induction cs arbitrary: r)
  case Nil
  then show ?case by simp
next
  case (Cons c cs)
  show ?case by (cases c) (simp_all add: Cons.IH snd_addReference referenceCount_removeReference)
qed

lemma calls_in_lifetime:
  "in_lifetime n cs \<Longrightarrow> n + count_list cs AddReference < 2^32 \<Longrightarrow> referenceCount r = of_nat n \<Longrightarrow>
     count_list cs RemoveReference \<le> n + count_list cs AddReference \<and>
     referenceCount (calls GNUC cs r) = of_nat (n + count_list cs AddReference - count_list cs RemoveReference) \<and>
     destroyed (calls GNUC cs r) = destroyed r +
        (if cs \<noteq> [] \<and> n + count_list cs AddReference = count_list cs RemoveReference then 1 else 0)"
proof (induction n cs arbitrary: r rule: in_lifetime.induct)
  case (1 n)
  then show ?case by simp
next
  case (2 n cs)
  let ?r = "call GNUC AddReference r"
  have r': "referenceCount ?r = of_nat (Suc n)" "destroyed ?r = destroyed r"
    using 2(4) by (simp_all add: snd_addReference)
  have "in_lifetime (Suc n) cs" using 2(2) by simp
  moreover have "Suc n + count_list cs AddReference < 2^32" using 2(3) by simp
  ultimately have IH: "count_list cs RemoveReference \<le> Suc n + count_list cs AddReference \<and>
     referenceCount (calls GNUC cs ?r) = of_nat (Suc n + count_list cs AddReference - count_list cs RemoveReference) \<and>
     destroyed (calls GNUC cs ?r) = destroyed ?r +
        (if cs \<noteq> [] \<and> Suc n + count_list cs AddReference = count_list cs RemoveReference then 1 else 0)"
    using 2(1)[of ?r] r'(1) by blast
  show ?case
  proof (cases "cs = []")
    case True
    then show ?thesis using r' by simp
  next
    case False
    then show ?thesis using IH r' by simp
  qed
next
  case (3 n cs)
  have n: "0 < n" "n \<le> 2^32" using 3(2,3) by simp_all
  let ?r = "call GNUC RemoveReference r"
  have r': "referenceCount ?r = of_nat (n - 1)"
       "destroyed ?r = (if n = 1 then destroyed r + 1 else destroyed r)"
    using snd_removeReference_GNUC[OF 3(4) n] by simp_all
  show ?case
  proof (cases "n = 1")
    case True
    then have "cs = []" using 3(2) by simp
    then show ?thesis using True r' by simp
  next
    case False
    then have "in_lifetime (n - 1) cs" using 3(2) by simp
    moreover have "n - 1 + count_list cs AddReference < 2^32" using 3(3) by simp
    ultimately have IH: "count_list cs RemoveReference \<le> n - 1 + count_list cs AddReference \<and>
       referenceCount (calls GNUC cs ?r) = of_nat (n - 1 + count_list cs AddReference - count_list cs RemoveReference) \<and>
       destroyed (calls GNUC cs ?r) = destroyed ?r +
        (if cs \<noteq> [] \<and> n - 1 + count_list cs AddReference = count_list cs RemoveReference then 1 else 0)"
      using 3(1)[OF False, of ?r] r'(1) by blast
    have eq: "(n - 1 + count_list cs AddReference = count_list cs RemoveReference)
              = (n + count_list cs AddReference = Suc (count_list cs RemoveReference))"
      using n(1) by auto
    have sub: "n - 1 + count_list cs AddReference - count_list cs RemoveReference
              = n + count_list cs AddReference - Suc (count_list cs RemoveReference)"
      using n(1) by auto
    have le: "Suc (count_list cs RemoveReference) \<le> n + count_list cs AddReference"
      using IH n(1) by auto
    show ?thesis
    proof (cases "cs = []")
      case True
      then show ?thesis using r' False n(1) by auto
    next
      case cs: False
      show ?thesis using IH r' False cs eq sub le by simp
    qed
  qed
qed

lemma in_lifetime_prefix:
  "in_lifetime n (ys @ zs) \<Longrightarrow> zs \<noteq> [] \<Longrightarrow>
     in_lifetime n ys \<and> (ys \<noteq> [] \<longrightarrow> count_list ys RemoveReference < n + count_list ys AddReference)"
proof (induction n ys rule: in_lifetime.induct)
  case (1 n)
  then show ?case by simp
next
  case (2 n cs)
  then show ?case by (cases "cs = []") auto
next
  case (3 n cs)
  then show ?case by (cases "cs = []") (auto split: if_splits)
qed

text \<open>
  Outside the lifetime the count still follows the calls, but deletion does not: a
  reference removed from a count of zero wraps the counter, and the \<open>addReference\<close>
  that takes it back to zero deletes nothing.
\<close>

lemma removeReference_from_zero:
  "calls GNUC [RemoveReference] Referenced_new
     = \<lparr>referenceCount = - 1, destroyed = 0\<rparr> \<and>
   calls GNUC [RemoveReference, AddReference] Referenced_new
     = \<lparr>referenceCount = 0, destroyed = 0\<rparr>"
  by (simp add: addReference_def removeReference_def Referenced_new_def Let_def ucast_minus_1)

text \<open>
  On the \<open>__GNUC__\<close> branch, for calls on a new object that stay within its lifetime,
  with fewer than \<open>2^32\<close> calls of \<open>addReference\<close>: the final count is \<open>N - M\<close> (on every
  branch), the object is destroyed once if the last call takes the count to zero
  and not at all otherwise, and never by an earlier call.
\<close>

lemma lifetime_GNUC:
  assumes "in_lifetime 0 cs" and "count_list cs AddReference < 2^32"
  shows "count_list cs RemoveReference \<le> count_list cs AddReference \<and>
         unat (referenceCount (calls b cs Referenced_new))
           = count_list cs AddReference - count_list cs RemoveReference \<and>
         destroyed (calls GNUC cs Referenced_new)
           = (if cs \<noteq> [] \<and> count_list cs AddReference = count_list cs RemoveReference then 1 else 0) \<and>
         (\<forall>ys zs. cs = ys @ zs \<and> zs \<noteq> [] \<longrightarrow> destroyed (calls GNUC ys Referenced_new) = 0)"
proof -
  have r0: "referenceCount Referenced_new = of_nat 0" "destroyed Referenced_new = 0"
    by (simp_all add: Referenced_new_def)
  have main: "count_list cs RemoveReference \<le> 0 + count_list cs AddReference \<and>
     referenceCount (calls GNUC cs Referenced_new) = of_nat (0 + count_list cs AddReference - count_list cs RemoveReference) \<and>
     destroyed (calls GNUC cs Referenced_new) = destroyed Referenced_new +
        (if cs \<noteq> [] \<and> 0 + count_list cs AddReference = count_list cs RemoveReference then 1 else 0)"
    using assms r0(1) by (intro calls_in_lifetime) simp_all
  have same: "referenceCount (calls b cs Referenced_new) = referenceCount (calls GNUC cs Referenced_new)"
    by (simp add: referenceCount_calls)
  have cnt: "unat (referenceCount (calls b cs Referenced_new))
           = count_list cs AddReference - count_list cs RemoveReference"
  proof -
    let ?k = "count_list cs AddReference - count_list cs RemoveReference"
    have "?k < 2^32" using assms(2) by simp
    then have "unat (of_nat ?k :: 64 word) = ?k" by (rule unat_of_nat_64)
    moreover have "referenceCount (calls b cs Referenced_new) = of_nat ?k"
      using main same by (simp del: of_nat_diff)
    ultimately show ?thesis by (simp del: of_nat_diff)
  qed
  have early: "destroyed (calls GNUC ys Referenced_new) = 0" if "cs = ys @ zs" "zs \<noteq> []" for ys zs
  proof -
    have p: "in_lifetime 0 ys" "ys \<noteq> [] \<longrightarrow> count_list ys RemoveReference < 0 + count_list ys AddReference"
      using in_lifetime_prefix[of 0 ys zs] assms(1) that by auto
    have "count_list ys AddReference \<le> count_list cs AddReference"
      using that(1) by simp
    then have b: "0 + count_list ys AddReference < 2^32" using assms(2) by simp
    have "destroyed (calls GNUC ys Referenced_new) = destroyed Referenced_new +
        (if ys \<noteq> [] \<and> 0 + count_list ys AddReference = count_list ys RemoveReference then 1 else 0)"
      using calls_in_lifetime[OF p(1) b r0(1)] by blast
    then show ?thesis using p(2) r0(2) by auto
  qed
  show ?thesis using main cnt early r0(2) by auto
qed

text \<open>
  C4: for any sequence of \<open>N\<close> calls of \<open>addReference\<close> and \<open>M \<le> N\<close> calls of
  \<open>removeReference\<close> on one object the final count is \<open>N - M\<close>, and the object is
  destroyed exactly when a decrement brings the count to 0, never earlier and never
  twice.  On the branches \<open>OPENMP_3_1\<close> and \<open>#else\<close> one \<open>addReference\<close> followed by one
  \<open>removeReference\<close> (\<open>N = M = 1\<close>) brings the count to 0 and the object is not
  destroyed; one more \<open>removeReference\<close>, from the count 0, destroys it.  The
  \<open>__GNUC__\<close> branch destroys it at the decrement to 0.
\<close>

theorem C4_sequence_not_destroyed:
  "calls OPENMP_3_1 [AddReference, RemoveReference] Referenced_new
     = \<lparr>referenceCount = 0, destroyed = 0\<rparr> \<and>
   calls OTHER [AddReference, RemoveReference] Referenced_new
     = \<lparr>referenceCount = 0, destroyed = 0\<rparr> \<and>
   calls OPENMP_3_1 [AddReference, RemoveReference, RemoveReference] Referenced_new
     = \<lparr>referenceCount = - 1, destroyed = 1\<rparr> \<and>
   calls GNUC [AddReference, RemoveReference] Referenced_new
     = \<lparr>referenceCount = 0, destroyed = 1\<rparr>"
  by (simp add: addReference_def removeReference_def Referenced_new_def Let_def)

subsection \<open>Handles\<close>

lemma refs_addReference_at:
  "refs (addReference_at b p s) q =
     (if q = p then (refs s p)\<lparr>referenceCount := referenceCount (refs s p) + 1\<rparr> else refs s q)"
  by (simp add: addReference_at_def snd_addReference)

lemma make_copies_eq:
  "p \<noteq> 0 \<Longrightarrow> ptr rp = p \<Longrightarrow>
   fst (make_copies b k rp s) = replicate k \<lparr>ptr = p\<rparr> \<and>
   refs (snd (make_copies b k rp s)) p
     = (refs s p)\<lparr>referenceCount := referenceCount (refs s p) + of_nat k\<rparr>"
proof (induction k arbitrary: s)
  case 0
  then show ?case by simp
next
  case (Suc k)
  let ?s1 = "addReference_at b p s"
  have IH: "fst (make_copies b k rp ?s1) = replicate k \<lparr>ptr = p\<rparr> \<and>
   refs (snd (make_copies b k rp ?s1)) p
     = (refs ?s1 p)\<lparr>referenceCount := referenceCount (refs ?s1 p) + of_nat k\<rparr>"
    using Suc by blast
  show ?case using IH Suc.prems
    by (simp add: ref_ptr_copy_def split_beta refs_addReference_at add.assoc)
qed

lemma snd_removeReference_alive:
  assumes "referenceCount r = of_nat (Suc m)" "0 < m" "Suc m < 2^32"
  shows "snd (removeReference b r) = r\<lparr>referenceCount := of_nat m\<rparr>"
proof -
  have "(ucast (of_nat m :: 64 word) :: 32 word) = of_nat m"
    using assms(3) by (intro ucast_of_nat_32) simp
  moreover have "(of_nat m :: 32 word) \<noteq> 0"
    using assms(2,3) by (simp add: of_nat_32_eq_0)
  moreover have "(ucast (of_nat (Suc m) :: 64 word) :: 32 word) = of_nat (Suc m)"
    using assms(3) by (intro ucast_of_nat_32)
  moreover have "(of_nat (Suc m) :: 32 word) \<noteq> 0"
    using assms(3) of_nat_32_eq_0[of "Suc m"] by simp
  moreover have "(of_nat (Suc m) :: 64 word) - 1 = of_nat m" by simp
  ultimately show ?thesis
    unfolding removeReference_def assms(1) by (cases b) (simp_all add: Let_def del: of_nat_Suc)
qed

lemma destroy_all_replicate:
  "p \<noteq> 0 \<Longrightarrow> referenceCount (refs s p) = of_nat (m + k) \<Longrightarrow> 0 < m \<Longrightarrow> m + k < 2^32 \<Longrightarrow>
   refs (destroy_all b (replicate k \<lparr>ptr = p\<rparr>) s) p = (refs s p)\<lparr>referenceCount := of_nat m\<rparr>"
proof (induction k arbitrary: s)
  case 0
  then show ?case by simp
next
  case (Suc k)
  let ?s1 = "removeReference_at b p s"
  have step: "snd (removeReference b (refs s p)) = (refs s p)\<lparr>referenceCount := of_nat (m + k)\<rparr>"
    using Suc.prems by (intro snd_removeReference_alive) simp_all
  then have s1: "refs ?s1 p = (refs s p)\<lparr>referenceCount := of_nat (m + k)\<rparr>"
    by (simp add: removeReference_at_def)
  then have "referenceCount (refs ?s1 p) = of_nat (m + k)" by simp
  moreover have "m + k < 2^32" using Suc.prems by simp
  ultimately have "refs (destroy_all b (replicate k \<lparr>ptr = p\<rparr>) ?s1) p
                   = (refs ?s1 p)\<lparr>referenceCount := of_nat m\<rparr>"
    using Suc.IH[of ?s1] Suc.prems(1,3) by blast
  then show ?case using s1 Suc.prems(1) by (simp add: ref_ptr_destroy_def)
qed

lemma refs_removeReference_at:
  "refs (removeReference_at b p s) q =
     (if q = p then snd (removeReference b (refs s p)) else refs s q)"
  by (simp add: removeReference_at_def)

lemma destroy_all_count:
  "p \<noteq> 0 \<Longrightarrow>
   referenceCount (refs (destroy_all b (replicate k \<lparr>ptr = p\<rparr>) s) p)
     = referenceCount (refs s p) - of_nat k"
proof (induction k arbitrary: s)
  case 0
  then show ?case by simp
next
  case (Suc k)
  have "referenceCount (refs (destroy_all b (replicate k \<lparr>ptr = p\<rparr>) (removeReference_at b p s)) p)
          = referenceCount (refs (removeReference_at b p s) p) - of_nat k"
    using Suc by blast
  then show ?case using Suc.prems
    by (simp add: ref_ptr_destroy_def refs_removeReference_at referenceCount_removeReference)
qed

text \<open>
  On every branch of the preprocessor, \<open>K\<close> copies of a handle that is the only owner
  of its object take the 64-bit count to \<open>K + 1\<close> and their destruction takes it back
  to 1; as long as \<open>K + 1 < 2^32\<close> no copy's destructor deletes the object.
\<close>

lemma copies_within_int_range:
  assumes "ptr rp \<noteq> 0" and "referenceCount (refs s (ptr rp)) = 1"
  shows "case make_copies b K rp s of (cs, s') \<Rightarrow>
           length cs = K \<and> (\<forall>c \<in> set cs. ptr c = ptr rp) \<and>
           referenceCount (refs s' (ptr rp)) = of_nat (K + 1) \<and>
           referenceCount (refs (destroy_all b cs s') (ptr rp)) = 1 \<and>
           (K + 1 < 2^32 \<longrightarrow>
              unat (referenceCount (refs s' (ptr rp))) = K + 1 \<and>
              destroyed (refs s' (ptr rp)) = destroyed (refs s (ptr rp)) \<and>
              destroyed (refs (destroy_all b cs s') (ptr rp)) = destroyed (refs s (ptr rp)))"
proof -
  let ?p = "ptr rp"
  let ?s' = "snd (make_copies b K rp s)"
  let ?t = "destroy_all b (replicate K \<lparr>ptr = ?p\<rparr>) ?s'"
  have mc: "fst (make_copies b K rp s) = replicate K \<lparr>ptr = ?p\<rparr>"
           "refs ?s' ?p = (refs s ?p)\<lparr>referenceCount := referenceCount (refs s ?p) + of_nat K\<rparr>"
    using make_copies_eq[OF assms(1) refl, of b K s] by simp_all
  have cnt: "referenceCount (refs ?s' ?p) = of_nat (1 + K)"
    using mc(2) assms(2) by simp
  have ret: "referenceCount (refs ?t ?p) = 1"
    using destroy_all_count[OF assms(1), of b K ?s'] cnt by simp
  have bounded: "unat (referenceCount (refs ?s' ?p)) = K + 1 \<and>
                 destroyed (refs ?t ?p) = destroyed (refs s ?p)" if "K + 1 < 2^32"
  proof -
    have "unat (of_nat (1 + K) :: 64 word) = 1 + K"
      using that by (intro unat_of_nat_64) simp
    then have u: "unat (referenceCount (refs ?s' ?p)) = K + 1"
      using cnt by (simp del: of_nat_add of_nat_Suc)
    have "refs ?t ?p = (refs ?s' ?p)\<lparr>referenceCount := of_nat 1\<rparr>"
      using assms(1) that cnt by (intro destroy_all_replicate) simp_all
    then show ?thesis using u mc(2) by simp
  qed
  have d': "destroyed (refs ?s' ?p) = destroyed (refs s ?p)" using mc(2) by simp
  show ?thesis using mc(1) cnt ret bounded d' by (simp add: split_beta del: of_nat_add of_nat_Suc)
qed

lemma destroyed_removeReference: "destroyed r \<le> destroyed (snd (removeReference b r))"
  by (simp add: removeReference_def Let_def)

lemma destroyed_destroy_all:
  "destroyed (refs s p) \<le> destroyed (refs (destroy_all b cs s) p)"
proof (induction cs arbitrary: s)
  case Nil
  then show ?case by simp
next
  case (Cons c cs)
  have "destroyed (refs s p) \<le> destroyed (refs (ref_ptr_destroy b c s) p)"
    by (simp add: ref_ptr_destroy_def refs_removeReference_at destroyed_removeReference)
  also have "\<dots> \<le> destroyed (refs (destroy_all b cs (ref_ptr_destroy b c s)) p)"
    by (rule Cons.IH)
  finally show ?case by simp
qed

text \<open>
  C5: \<open>K\<close> copies of a handle that owns an object take the count to \<open>K + 1\<close>, and
  destroying the \<open>K\<close> copies takes it back to 1 without destroying the object.  For
  \<open>K = 2^32\<close> the count after the copies is \<open>2^32 + 1\<close>; the destructor of the first
  copy takes it to \<open>2^32\<close>, which \<open>int newRef\<close> holds as 0, and deletes the object
  while the other handles still point to it.  The count is back at 1 after the last
  destructor, on an object that has been deleted.
\<close>

theorem C5_copy_destructor_deletes:
  "case make_copies GNUC (2^32) \<lparr>ptr = 7\<rparr> sole_owner of (cs, s') \<Rightarrow>
     length cs = 2^32 \<and>
     refs s' 7 = \<lparr>referenceCount = 2^32 + 1, destroyed = 0\<rparr> \<and>
     (case cs of [] \<Rightarrow> False
      | c # _ \<Rightarrow> refs (ref_ptr_destroy GNUC c s') 7 = \<lparr>referenceCount = 2^32, destroyed = 1\<rparr>) \<and>
     0 < destroyed (refs (destroy_all GNUC cs s') 7) \<and>
     referenceCount (refs (destroy_all GNUC cs s') 7) = 1"
proof -
  let ?rp = "\<lparr>ptr = 7\<rparr>"
  let ?K = "2^32 :: nat"
  let ?s' = "snd (make_copies GNUC ?K ?rp sole_owner)"
  obtain k where k: "?K = Suc k" by (cases ?K) simp_all
  have mc: "fst (make_copies GNUC ?K ?rp sole_owner) = replicate ?K ?rp"
           "refs ?s' 7 = (refs sole_owner 7)\<lparr>referenceCount := referenceCount (refs sole_owner 7) + of_nat ?K\<rparr>"
    using make_copies_eq[of 7 ?rp GNUC ?K sole_owner] by simp_all
  have r: "refs ?s' 7 = \<lparr>referenceCount = 2^32 + 1, destroyed = 0\<rparr>"
    unfolding mc(2) by (simp add: sole_owner_def)
  have first: "refs (ref_ptr_destroy GNUC ?rp ?s') 7 = \<lparr>referenceCount = 2^32, destroyed = 1\<rparr>"
    unfolding ref_ptr_destroy_def using r
    by (simp add: refs_removeReference_at removeReference_def Let_def)
  have cs: "replicate ?K ?rp = ?rp # replicate k ?rp"
    unfolding k by simp
  have "destroyed (refs (ref_ptr_destroy GNUC ?rp ?s') 7)
          \<le> destroyed (refs (destroy_all GNUC (replicate k ?rp) (ref_ptr_destroy GNUC ?rp ?s')) 7)"
    by (rule destroyed_destroy_all)
  then have d: "0 < destroyed (refs (destroy_all GNUC (replicate ?K ?rp) ?s') 7)"
    unfolding cs using first by simp
  have c: "referenceCount (refs (destroy_all GNUC (replicate ?K ?rp) ?s') 7) = 1"
    using destroy_all_count[of 7 GNUC ?K ?s'] r by simp
  have l: "length (replicate ?K ?rp) = ?K" by (rule length_replicate)
  have f: "(case replicate ?K ?rp of [] \<Rightarrow> False
      | c # _ \<Rightarrow> refs (ref_ptr_destroy GNUC c ?s') 7 = \<lparr>referenceCount = 2^32, destroyed = 1\<rparr>)"
    unfolding cs using first by simp
  show ?thesis
    unfolding split_beta mc(1) using l r f d c by blast
qed

lemma assign_eq_assign_ptr: "assign b this rp s = assign_ptr b this (ptr rp) s"
  by (simp add: assign_def assign_ptr_def)



section \<open>Properties of the modules\<close>

subsection \<open>\<open>ParticleCollector::process\<close>\<close>

lemma container_process:
  assumes "deref h c = Some candidate"
  shows "\<exists>pc' h'. ParticleCollector_process b pc c h = Some (pc', h') \<and>
           container pc' = container pc @ [\<lparr>ptr = (if clone pc then Suc (length (cands h)) else c)\<rparr>]"
  using assms
  by (simp add: ParticleCollector_process_def new_Candidate_def ref_ptr_from_def push_back_def
        ref_ptr_copy_def Let_def split_beta)

text \<open>
  \<open>process\<close> itself follows the members \<open>clone\<close> and \<open>recursive\<close>: with \<open>clone\<close> set
  the new entry points to a fresh cell that holds the clone (with the secondaries
  exactly when \<open>recursive\<close> is set) and is owned by the container alone; otherwise
  the entry is one more handle to the candidate passed.
\<close>

lemma Candidate_clone_True: "Candidate_clone True c = c"
  by (induction c) (simp add: map_idI)

lemma ParticleCollector_process_clone:
  assumes "deref h c = Some candidate" and "clone pc"
  shows "\<exists>pc' h'. ParticleCollector_process b pc c h = Some (pc', h') \<and>
           container pc' = container pc @ [\<lparr>ptr = Suc (length (cands h))\<rparr>] \<and>
           deref h' (Suc (length (cands h))) = Some (Candidate_clone (recursive pc) candidate) \<and>
           deref h' c = Some candidate \<and>
           referenceCount (refs h' (Suc (length (cands h)))) = 1"
proof -
  have ne: "c \<noteq> Suc (length (cands h))" "0 < c" "c \<le> length (cands h)"
      "c - Suc 0 < length (cands h)"
    using assms(1) by (auto simp add: deref_def split: if_splits)
  show ?thesis
    using assms ne
    by (cases b)
       (simp_all add: ParticleCollector_process_def new_Candidate_def ref_ptr_from_def push_back_def
        ref_ptr_copy_def ref_ptr_destroy_Candidate_def addReference_at_def removeReference_at_def
        addReference_def removeReference_def Referenced_new_def deref_def nth_append
        Let_def split_beta)
qed

lemma ParticleCollector_process_share:
  assumes "deref h c = Some candidate" and "\<not> clone pc"
  shows "\<exists>pc' h'. ParticleCollector_process b pc c h = Some (pc', h') \<and>
           container pc' = container pc @ [\<lparr>ptr = c\<rparr>] \<and>
           length (cands h') = length (cands h) \<and>
           referenceCount (refs h' c) = referenceCount (refs h c) + 1"
proof -
  have ne: "c \<noteq> 0"
    using assms(1) by (auto simp add: deref_def split: if_splits)
  show ?thesis
    using assms ne
    by (cases b)
       (simp_all add: ParticleCollector_process_def ref_ptr_from_def push_back_def
        ref_ptr_copy_def ref_ptr_destroy_Candidate_def addReference_at_def removeReference_at_def
        addReference_def removeReference_def Let_def split_beta)
qed

text \<open>
  C1: a collector constructed with explicit \<open>clone\<close> (and \<open>recursive\<close>) flags stores
  independent copies when \<open>clone\<close> is true and shared handles when it is false.  The
  constructors \<open>ParticleCollector(nBuffer, clone)\<close> and
  \<open>ParticleCollector(nBuffer, clone, recursive)\<close> never initialise the members from
  their arguments, so the collector built does not depend on the flags passed; built
  with \<open>clone = true, recursive = true\<close> in storage whose bytes are zero, it stores
  a shared handle to the live candidate at address 1 and allocates no copy.
\<close>

theorem C1_flags_ignored:
  "ParticleCollector_3 uninit n c r = ParticleCollector_3 uninit n c' r' \<and>
   ParticleCollector_2 uninit n c = ParticleCollector_2 uninit n c' \<and>
   map_option (\<lambda>(pc, h). (container pc, length (cands h)))
     (ParticleCollector_process GNUC (ParticleCollector_3 zeroed 10 True True) 1 heap1)
     = Some ([\<lparr>ptr = 1\<rparr>], 1)"
  by (simp add: ParticleCollector_3_def ParticleCollector_2_def zeroed_def heap1_def
        ParticleCollector_process_def ref_ptr_from_def push_back_def ref_ptr_copy_def
        ref_ptr_destroy_Candidate_def addReference_at_def removeReference_at_def
        addReference_def removeReference_def Let_def split_beta)

text \<open>
  C3, as stated: \<open>process\<close> on a candidate whose \<open>active\<close> flag is false stores nothing
  in the collector, invokes neither \<open>accept\<close> nor \<open>reject\<close> and changes no state.  For
  the inactive candidate \<open>stopped_photon\<close> the collector stores one entry, the filter
  invokes \<open>accept\<close> (or \<open>reject\<close>), and the filler fills the map.
\<close>

theorem C3_counterexample:
  "\<not> active stopped_photon \<and> deref heap1 1 = Some stopped_photon \<and>
   map_option (\<lambda>(pc, h). ParticleCollector_size pc)
     (ParticleCollector_process GNUC ParticleCollector_0 1 heap1) = Some 1 \<and>
   invoked {22} stopped_photon = [Accept] \<and>
   invoked {11} stopped_photon = [Reject] \<and>
   EmissionMapFiller_process (#) (Some []) stopped_photon = Some [proton]"
  by (simp add: stopped_photon_def photon_def heap1_def deref_def ParticleCollector_0_def
        ParticleCollector_size_def
        ParticleCollector_process_def ref_ptr_from_def push_back_def ref_ptr_copy_def
        ref_ptr_destroy_Candidate_def addReference_at_def removeReference_at_def
        addReference_def removeReference_def Let_def split_beta
        invoked_def ParticleFilter_process_def record_accept_def record_reject_def
        EmissionMapFiller_process_def)

text \<open>
  C3, amended: none of the three \<open>process\<close> functions reads the \<open>active\<close> flag.  On
  an inactive candidate the collector appends one entry, the filter invokes exactly
  one of \<open>accept\<close> and \<open>reject\<close> (\<open>accept\<close> when the id is in the set), and the filler
  passes the source state to the emission map when one is configured and does nothing
  when none is.
\<close>

theorem C3_process_ignores_active:
  assumes "\<not> active candidate" and "deref h c = Some candidate"
  shows "(case ParticleCollector_process b pc c h of
            None \<Rightarrow> False
          | Some (pc', h') \<Rightarrow> ParticleCollector_size pc' = ParticleCollector_size pc + 1) \<and>
         invoked ids candidate = (if getId (current candidate) \<in> ids then [Accept] else [Reject]) \<and>
         ParticleFilter_process accept reject ids candidate w =
           (if getId (current candidate) \<in> ids then accept candidate w else reject candidate w) \<and>
         EmissionMapFiller_process fillMap (Some m) candidate = Some (fillMap (source candidate) m) \<and>
         EmissionMapFiller_process fillMap None candidate = None"
proof -
  obtain pc' h' where "ParticleCollector_process b pc c h = Some (pc', h')"
      "container pc' = container pc @ [\<lparr>ptr = (if clone pc then Suc (length (cands h)) else c)\<rparr>]"
    using container_process[OF assms(2)] by blast
  then have "(case ParticleCollector_process b pc c h of
            None \<Rightarrow> False
          | Some (pc', h') \<Rightarrow> ParticleCollector_size pc' = ParticleCollector_size pc + 1)"
    by (simp add: ParticleCollector_size_def)
  then show ?thesis
    by (simp add: invoked_def ParticleFilter_process_def record_accept_def record_reject_def
          EmissionMapFiller_process_def)
qed

theorem C3_process_ignores_active_witness:
  "\<not> active stopped_photon \<and> deref heap1 1 = Some stopped_photon \<and>
   (case ParticleCollector_process GNUC ParticleCollector_0 1 heap1 of
            None \<Rightarrow> False
          | Some (pc', h') \<Rightarrow> ParticleCollector_size pc' = ParticleCollector_size ParticleCollector_0 + 1) \<and>
   invoked {11} stopped_photon = [Reject]"
proof -
  have a: "\<not> active stopped_photon" by (simp add: stopped_photon_def)
  have b: "deref heap1 1 = Some stopped_photon" by (simp add: heap1_def deref_def)
  have "getId (current stopped_photon) \<notin> {11}" by (simp add: stopped_photon_def photon_def)
  then show ?thesis
    using a b C3_process_ignores_active [OF a b, where b = GNUC and pc = ParticleCollector_0 and ids = "{11}"
        and accept = record_accept and reject = record_reject and w = "[]"
        and fillMap = "(#)" and m = "[]"] by simp
qed

subsection \<open>\<open>ParticleFilter::process\<close>\<close>

text \<open>
  C6: for every set \<open>ids\<close> of particle ids and every candidate, \<open>process\<close> invokes
  \<open>accept\<close> iff the candidate's current id is in \<open>ids\<close>, and \<open>reject\<close> iff it is not.
\<close>

theorem C6_filter:
  "(Accept \<in> set (invoked ids candidate) \<longleftrightarrow> getId (current candidate) \<in> ids) \<and>
   (Reject \<in> set (invoked ids candidate) \<longleftrightarrow> getId (current candidate) \<notin> ids) \<and>
   ParticleFilter_process accept reject ids candidate w =
     (if getId (current candidate) \<in> ids then accept candidate w else reject candidate w)"
  by (simp add: invoked_def ParticleFilter_process_def record_accept_def record_reject_def)

lemma invoked_addId_removeId:
  "invoked (addId (getId (current candidate)) ids) candidate = [Accept]"
  "invoked (removeId (getId (current candidate)) ids) candidate = [Reject]"
  by (simp_all add: invoked_def ParticleFilter_process_def record_accept_def record_reject_def
        addId_def removeId_def)

subsection \<open>\<open>PhotonOutput1D::process\<close>\<close>

lemma sint_eq_iff: "(x = y) = (sint x = sint y)" for x y :: c_int
  by (auto intro: signed_word_eqI)

lemma c_abs_11: "(c_abs x = 11) = (x = 11 \<or> x = - 11)"
proof (cases "x <s 0")
  case True
  have "(- x = 11) = (x = - 11)" by (metis minus_minus)
  moreover have "x \<noteq> 11" using True by (auto simp add: word_sless_alt)
  ultimately show ?thesis using True by (simp add: c_abs_def)
next
  case False
  have "x \<noteq> - 11" using False by (auto simp add: word_sless_alt)
  then show ?thesis using False by (simp add: c_abs_def)
qed

lemma abs_sint_11: "(\<bar>sint x\<bar> = 11) = (x = 11 \<or> x = - 11)" for x :: c_int
proof -
  have "(x = 11) = (sint x = 11)" by (simp add: sint_eq_iff[of x 11])
  moreover have "(x = - 11) = (sint x = - 11)" by (simp add: sint_eq_iff[of x "- 11"])
  ultimately show ?thesis by auto
qed

lemma sint_22: "(sint x = 22) = (x = 22)" for x :: c_int
  by (simp add: sint_eq_iff[of x 22])

text \<open>
  C9: for a candidate whose current id is neither 22 nor of absolute value 11,
  \<open>process\<close> writes nothing and returns the candidate unchanged; for the ids 22, 11
  and -11, and only for them, it writes one record and deactivates the candidate.
\<close>

theorem C9_PhotonOutput1D:
  "(sint (getId (current candidate)) \<noteq> 22 \<and> \<bar>sint (getId (current candidate))\<bar> \<noteq> 11 \<longrightarrow>
      PhotonOutput1D_process fmt candidate out = (candidate, out)) \<and>
   (sint (getId (current candidate)) \<in> {22, 11, - 11} \<longrightarrow>
      PhotonOutput1D_process fmt candidate out = (setActive False candidate, out @ [fmt candidate]) \<and>
      \<not> active (setActive False candidate)) \<and>
   (PhotonOutput1D_process fmt candidate out \<noteq> (candidate, out) \<longrightarrow>
      sint (getId (current candidate)) \<in> {22, 11, - 11})"
proof -
  have a: "\<not> active (setActive False candidate)" by (cases candidate) simp
  have b: "(\<bar>sint (getId (current candidate))\<bar> = 11) = (c_abs (getId (current candidate)) = 11)"
    by (simp add: abs_sint_11 c_abs_11)
  have c: "(sint (getId (current candidate)) = 11 \<or> sint (getId (current candidate)) = - 11)
             = (\<bar>sint (getId (current candidate))\<bar> = 11)" by auto
  show ?thesis using a b c
    by (auto simp add: PhotonOutput1D_process_def Let_def sint_22)
qed

theorem C9_PhotonOutput1D_witness:
  "sint (getId (current stopped_photon)) \<in> {22, 11, - 11} \<and>
   PhotonOutput1D_process (\<lambda>c. ''22'') stopped_photon [] = (setActive False stopped_photon, [''22'']) \<and>
   sint (getId (current running_proton)) \<noteq> 22 \<and>
   \<bar>sint (getId (current running_proton))\<bar> \<noteq> 11 \<and>
   PhotonOutput1D_process (\<lambda>c. ''22'') running_proton [] = (running_proton, [])"
proof -
  have a: "sint (getId (current stopped_photon)) \<in> {22, 11, - 11}"
    by (simp add: stopped_photon_def photon_def)
  have b: "sint (getId (current running_proton)) \<noteq> 22 \<and>
           \<bar>sint (getId (current running_proton))\<bar> \<noteq> 11"
    by (simp add: running_proton_def proton_def)
  show ?thesis
    using a b
      C9_PhotonOutput1D [of stopped_photon "\<lambda>c. ''22''" "[]"]
      C9_PhotonOutput1D [of running_proton "\<lambda>c. ''22''" "[]"]
    by simp
qed

subsection \<open>\<open>PerformanceModule::process\<close>\<close>











subsection \<open>\<open>ParticleCollector::getTrajectory\<close>\<close>

text \<open>More fuel never changes the result of a traversal that has ended.\<close>

lemma run_more_fuel:
  "run fuel ml c w = Some r \<Longrightarrow> run (Suc fuel) ml c w = Some r"
  "run_secondaries fuel ml ss w = Some rs \<Longrightarrow> run_secondaries (Suc fuel) ml ss w = Some rs"
proof (induction fuel ml c w and fuel ml ss w arbitrary: r and rs rule: run_run_secondaries.induct)
  case (1 ml c w)
  then show ?case by simp
next
  case (2 fuel ml c w)
  obtain c' w' where p: "run_primary (stepBudget ml) (modules ml) c w = (c', w')"
    by (cases "run_primary (stepBudget ml) (modules ml) c w")
  from "2.prems" p obtain ss w'' where
    s: "run_secondaries fuel ml (secondaries c') w' = Some (ss, w'')" and r: "r = (setSecondaries ss c', w'')"
    by (auto split: option.splits)
  have "run_secondaries (Suc fuel) ml (secondaries c') w' = Some (ss, w'')"
    using "2.IH"[OF p[symmetric] s] .
  then show ?case using p r by (simp del: run_secondaries.simps)
next
  case (3 fuel ml w)
  then show ?case by simp
next
  case (4 fuel ml s ss w)
  from "4.prems" obtain s' w' ss' w'' where
    a: "run fuel ml s w = Some (s', w')" and
    b: "run_secondaries fuel ml ss w' = Some (ss', w'')" and
    r: "rs = (s' # ss', w'')"
    by (auto split: option.splits)
  have a': "run (Suc fuel) ml s w = Some (s', w')" using "4.IH"(1)[OF a] .
  have b': "run_secondaries (Suc fuel) ml ss w' = Some (ss', w'')"
    using "4.IH"(2) a b by auto
  show ?case using a' b' r by (simp del: run.simps)
qed

lemma restart_fields:
  "trajectoryLength (restart c) = 0" "active (restart c)"
  "source (restart c) = source c" "created (restart c) = created c"
  "current (restart c) = current c" "secondaries (restart c) = secondaries c"
  by (cases c; simp add: restart_def)+

lemma Candidate_clone_fields:
  "source (Candidate_clone d c) = source c" "created (Candidate_clone d c) = created c"
  "current (Candidate_clone d c) = current c" "active (Candidate_clone d c) = active c"
  "trajectoryLength (Candidate_clone d c) = trajectoryLength c"
  "secondaries (Candidate_clone False c) = []"
  by (cases c; simp)+

lemma ModuleList_add_remove:
  "ModuleList_remove (ModuleList_size (ModuleList_add m ml) - Suc 0) (ModuleList_add m ml) = ml"
  by (simp add: ModuleList_remove_def ModuleList_size_def ModuleList_add_def)

lemma deref_old:
  assumes "q \<noteq> Suc (length (cands h))"
  shows "deref (ref_ptr_destroy_Candidate b \<lparr>ptr = Suc (length (cands h))\<rparr>
            (store_Candidate (Suc (length (cands h))) c'
              (store_Candidate (Suc (length (cands h))) c
                (snd (ref_ptr_from b (Suc (length (cands h))) (snd (new_Candidate c0 h))))))) q
         = deref h q"
  using assms
  by (auto simp add: deref_def ref_ptr_destroy_Candidate_def store_Candidate_def ref_ptr_from_def
        new_Candidate_def addReference_at_def removeReference_at_def Let_def nth_append
        nth_list_update)

text \<open>
  C7: for a valid stored index \<open>i\<close>, \<open>getTrajectory\<close> works on a restarted clone of
  the stored candidate (trajectory length 0, active, source and created states as
  stored), runs the pipeline with \<open>outputModule\<close> appended on that clone, and returns
  with the module chain as it was and the stored candidate untouched; it returns
  exactly when the pipeline run does.
\<close>

theorem C7_getTrajectory:
  assumes "i < length (container pc)" and "deref h (ptr (container pc ! i)) = Some stored"
  shows "trajectoryLength (restart (Candidate_clone False stored)) = 0 \<and>
         active (restart (Candidate_clone False stored)) \<and>
         source (restart (Candidate_clone False stored)) = source stored \<and>
         created (restart (Candidate_clone False stored)) = created stored \<and>
         (case run fuel (ModuleList_add outputModule mlist) (restart (Candidate_clone False stored)) w of
            None \<Rightarrow> getTrajectory b fuel pc mlist i outputModule h w = None
          | Some (c', w') \<Rightarrow>
              (\<exists>h'. getTrajectory b fuel pc mlist i outputModule h w = Some (mlist, h', w') \<and>
                    deref h' (ptr (container pc ! i)) = Some stored \<and>
                    (\<forall>q. q \<noteq> Suc (length (cands h)) \<longrightarrow> deref h' q = deref h q)))"
proof -
  let ?p = "Suc (length (cands h))"
  let ?r = "restart (Candidate_clone False stored)"
  have fresh: "ptr (container pc ! i) \<noteq> ?p"
    using assms(2) by (auto simp add: deref_def split: if_splits)
  have run_case: "(case run fuel (ModuleList_add outputModule mlist) ?r w of
            None \<Rightarrow> getTrajectory b fuel pc mlist i outputModule h w = None
          | Some (c', w') \<Rightarrow>
              (\<exists>h'. getTrajectory b fuel pc mlist i outputModule h w = Some (mlist, h', w') \<and>
                    deref h' (ptr (container pc ! i)) = Some stored \<and>
                    (\<forall>q. q \<noteq> ?p \<longrightarrow> deref h' q = deref h q)))"
  proof (cases "run fuel (ModuleList_add outputModule mlist) ?r w")
    case None
    then show ?thesis using assms
      by (simp add: getTrajectory_def Let_def split_beta)
  next
    case (Some res)
    obtain c' w' where res: "res = (c', w')" by (cases res)
    let ?h' = "ref_ptr_destroy_Candidate b \<lparr>ptr = ?p\<rparr>
            (store_Candidate ?p c'
              (store_Candidate ?p ?r
                (snd (ref_ptr_from b ?p (snd (new_Candidate (Candidate_clone False stored) h))))))"
    have g: "getTrajectory b fuel pc mlist i outputModule h w = Some (mlist, ?h', w')"
      using assms Some res
      by (simp add: getTrajectory_def Let_def split_beta ModuleList_add_remove)
         (simp add: new_Candidate_def ref_ptr_from_def Let_def)
    have old: "\<forall>q. q \<noteq> ?p \<longrightarrow> deref ?h' q = deref h q"
      using deref_old by blast
    then have "deref ?h' (ptr (container pc ! i)) = Some stored"
      using fresh assms(2) by simp
    then show ?thesis using Some res g old by auto
  qed
  show ?thesis using run_case by (simp add: restart_fields Candidate_clone_fields)
qed

lemma run_example:
  "run 1 (ModuleList_add stop_and_record chain0) (restart (Candidate_clone False stopped_photon)) []
     = Some (setActive False (restart (Candidate_clone False stopped_photon)), [0])"
  by (simp add: ModuleList_add_def chain0_def stop_and_record_def stopped_photon_def restart_def
        numeral_2_eq_2)

theorem C7_getTrajectory_witness:
  "0 < length (container collector1) \<and>
   deref heap1 (ptr (container collector1 ! 0)) = Some stopped_photon \<and>
   (\<exists>h'. getTrajectory GNUC 1 collector1 chain0 0 stop_and_record heap1 [] = Some (chain0, h', [0]) \<and>
         deref h' (ptr (container collector1 ! 0)) = Some stopped_photon)"
proof -
  have a: "0 < length (container collector1)" by (simp add: collector1_def)
  have b: "deref heap1 (ptr (container collector1 ! 0)) = Some stopped_photon"
    by (simp add: collector1_def heap1_def deref_def)
  have "\<exists>h'. getTrajectory GNUC 1 collector1 chain0 0 stop_and_record heap1 [] = Some (chain0, h', [0]) \<and>
         deref h' (ptr (container collector1 ! 0)) = Some stopped_photon"
    using C7_getTrajectory [OF a b, where fuel = 1 and outputModule = stop_and_record
        and mlist = chain0 and w = "[]" and b = GNUC]
    unfolding run_example by auto
  then show ?thesis using a b by simp
qed

end
